theory Spec2Isabelle
  imports Complex_Main "HOL-Library.Word"
begin

section \<open>Numbers and buffers\<close>

text \<open>
  The analyser of \<^verbatim>\<open>src/audio/AudioEngine.js\<close> reads two \<^verbatim>\<open>Uint8Array\<close> buffers per frame
  and computes with JavaScript numbers. A byte of a buffer is an \<open>8 word\<close>; a JavaScript number
  is a \<open>real\<close> (the rounding of IEEE doubles and of the intermediate \<^verbatim>\<open>Float32Array\<close>s is not
  part of the model). A JavaScript expression that can evaluate to \<^verbatim>\<open>NaN\<close> or to an infinity
  returns a \<open>real option\<close>, with \<open>None\<close> for the value that is not a finite number.
  A buffer that is \<^verbatim>\<open>null\<close> and a buffer of length 0 take the same early return in every
  function (\<^verbatim>\<open>!buf || buf.length === 0\<close>); both are the empty list here.
  One frame has one spectrum and one waveform: the \<open>engine\<close> record holds what the getters of
  \<^verbatim>\<open>AudioEngine\<close> return during one call of \<^verbatim>\<open>getAllFeatures\<close>. The state that lasts from frame to
  frame is the \<open>analyzer\<close> record, passed in and returned by the functions that assign to it.
\<close>

definition num :: "8 word \<Rightarrow> real" where
  \<comment> \<open>reading one element of a \<^verbatim>\<open>Uint8Array\<close> as a number\<close>
  "num w = real (unat w)"

definition jsdiv :: "real \<Rightarrow> real \<Rightarrow> real option" where
  \<comment> \<open>\<^verbatim>\<open>a / b\<close>: with \<open>b = 0\<close> the quotient is \<^verbatim>\<open>NaN\<close> or an infinity\<close>
  "jsdiv a b = (if b = 0 then None else Some (a / b))"

definition jssqrt :: "real \<Rightarrow> real option" where
  \<comment> \<open>\<^verbatim>\<open>Math.sqrt\<close>: \<^verbatim>\<open>NaN\<close> below zero\<close>
  "jssqrt x = (if x < 0 then None else Some (sqrt x))"

record engine =
  frequencyData :: "8 word list"
  timeDomainData :: "8 word list"
  contextSampleRate :: real

record analyzer =
  prevSpectrum :: "8 word list option"
  numMelFilters :: nat
  numMFCCs :: nat

definition AudioAnalyzer :: analyzer where
  \<comment> \<open>the constructor\<close>
  "AudioAnalyzer = \<lparr>prevSpectrum = None, numMelFilters = 26, numMFCCs = 13\<rparr>"

definition getFrequencyData :: "engine \<Rightarrow> real list" where
  "getFrequencyData e = map num (frequencyData e)"

definition getTimeDomainData :: "engine \<Rightarrow> real list" where
  "getTimeDomainData e = map num (timeDomainData e)"

definition getSampleRate :: "engine \<Rightarrow> real" where
  "getSampleRate e = contextSampleRate e"

section \<open>Time-domain features\<close>

definition getRMS :: "real list \<Rightarrow> real" where
  \<comment> \<open>the radicand is a mean of squares, never negative\<close>
  "getRMS timeDomain =
     (if timeDomain = [] then 0
      else
        let total = fold (\<lambda>i acc. let normalized = (timeDomain ! i - 128) / 128
                                   in acc + normalized * normalized)
                      [0..<length timeDomain] 0
        in sqrt (total / real (length timeDomain)))"

definition getPeak :: "real list \<Rightarrow> real" where
  "getPeak timeDomain =
     (if timeDomain = [] then 0
      else fold (\<lambda>i mx. let normalized = \<bar>timeDomain ! i - 128\<bar> / 128
                         in if normalized > mx then normalized else mx)
             [0..<length timeDomain] 0)"

section \<open>Spectral features\<close>

definition getSpectralCentroid :: "real \<Rightarrow> real list \<Rightarrow> real" where
  "getSpectralCentroid sampleRate spectrum =
     (if spectrum = [] then 0
      else
        let binCount = length spectrum;
            freqPerBin = sampleRate / (real binCount * 2);
            (weightedSum, total) =
              fold (\<lambda>i (weightedSum, total).
                      let magnitude = spectrum ! i;
                          frequency = real i * freqPerBin
                      in (weightedSum + magnitude * frequency, total + magnitude))
                [0..<binCount] (0, 0)
        in if total > 0 then weightedSum / total else 0)"

definition getSpectralSpread :: "real \<Rightarrow> real list \<Rightarrow> real option" where
  "getSpectralSpread sampleRate spectrum =
     (if spectrum = [] then Some 0
      else
        let centroid = getSpectralCentroid sampleRate spectrum;
            binCount = length spectrum;
            freqPerBin = sampleRate / (real binCount * 2);
            (weightedVariance, total) =
              fold (\<lambda>i (weightedVariance, total).
                      let magnitude = spectrum ! i;
                          frequency = real i * freqPerBin;
                          diff = frequency - centroid
                      in (weightedVariance + magnitude * diff * diff, total + magnitude))
                [0..<binCount] (0, 0)
        in if total > 0 then jssqrt (weightedVariance / total) else Some 0)"

definition getSpectralFlux :: "analyzer \<Rightarrow> 8 word list \<Rightarrow> real \<times> analyzer" where
  \<comment> \<open>\<open>currentSpectrum\<close> is the copy \<^verbatim>\<open>new Uint8Array(spectrum)\<close>, the same bytes.
      \<^verbatim>\<open>prevSpectrum[i]\<close> beyond the stored length is \<^verbatim>\<open>undefined\<close>: the difference is
      \<^verbatim>\<open>NaN\<close>, \<^verbatim>\<open>NaN > 0\<close> is false, and the bin adds 0\<close>
  "getSpectralFlux a spectrum =
     (if spectrum = [] then (0, a)
      else
        let currentSpectrum = spectrum
        in case prevSpectrum a of
             None \<Rightarrow> (0, a\<lparr>prevSpectrum := Some currentSpectrum\<rparr>)
           | Some prev \<Rightarrow>
               let flux = fold (\<lambda>i flux.
                                  if i < length prev then
                                    let diff = num (currentSpectrum ! i) - num (prev ! i)
                                    in flux + (if diff > 0 then diff else 0)
                                  else flux + 0)
                            [0..<length currentSpectrum] 0
               in (flux / real (length currentSpectrum),
                   a\<lparr>prevSpectrum := Some currentSpectrum\<rparr>))"

definition getSpectralEntropy :: "real list \<Rightarrow> real option" where
  "getSpectralEntropy spectrum =
     (if spectrum = [] then Some 0
      else
        let total = fold (\<lambda>i acc. acc + (spectrum ! i + 1)) [0..<length spectrum] 0
        in if total = 0 then Some 0
           else
             let maxEntropy = log 2 (real (length spectrum));
                 entropy = fold (\<lambda>i entropy.
                                   let p = (spectrum ! i + 1) / total
                                   in if p > 0 then entropy - p * log 2 p else entropy)
                             [0..<length spectrum] 0
             in jsdiv entropy maxEntropy)"

definition getTonality :: "real list \<Rightarrow> real" where
  "getTonality spectrum =
     (if spectrum = [] then 0
      else
        let (peakEnergy, totalEnergy) =
              fold (\<lambda>i (peakEnergy, totalEnergy).
                      let val = spectrum ! i
                      in (if val > spectrum ! (i - 1) \<and> val > spectrum ! (i + 1) \<and> val > 10
                          then peakEnergy + val else peakEnergy,
                          totalEnergy + val))
                [1..<length spectrum - 1] (0, 0)
        in if totalEnergy > 0 then min 1 (peakEnergy / totalEnergy * 3) else 0)"

section \<open>Pitch\<close>

definition correlation_at :: "real list \<Rightarrow> nat \<Rightarrow> real" where
  \<comment> \<open>the inner loop of \<^verbatim>\<open>getPitch\<close>\<close>
  "correlation_at signal period =
     fold (\<lambda>i correlation. correlation + signal ! i * signal ! (i + period))
       [0..<length signal - period] 0"

function pitch_search :: "real list \<Rightarrow> real \<Rightarrow> nat \<Rightarrow> nat \<times> real \<Rightarrow> nat \<times> real" where
  \<comment> \<open>the outer loop: \<open>bound\<close> is \<^verbatim>\<open>Math.min(maxPeriod, bufferSize / 2)\<close>\<close>
  "pitch_search signal bound period (bestPeriod, bestCorrelation) =
     (if real period < bound then
        let correlation = correlation_at signal period
        in pitch_search signal bound (period + 1)
             (if correlation > bestCorrelation then (period, correlation)
              else (bestPeriod, bestCorrelation))
      else (bestPeriod, bestCorrelation))"
  by pat_completeness auto
termination
  by (relation "measure (\<lambda>(signal, bound, period, best). nat \<lceil>bound\<rceil> - period)")
     (auto, linarith)

definition getPitch :: "real \<Rightarrow> real list \<Rightarrow> real" where
  \<comment> \<open>the periods are indices (\<open>nat\<close>): with a negative sample rate \<open>minPeriod\<close> is not below
      \<open>maxPeriod\<close> and the loop does not run, as here, where both are 0\<close>
  "getPitch sampleRate timeDomain =
     (if timeDomain = [] then 0
      else
        let bufferSize = length timeDomain;
            signal = map (\<lambda>x. (x - 128) / 128) timeDomain;
            minPeriod = nat \<lfloor>sampleRate / 1000\<rfloor>;
            maxPeriod = nat \<lfloor>sampleRate / 50\<rfloor>;
            (bestPeriod, bestCorrelation) =
              pitch_search signal (min (real maxPeriod) (real bufferSize / 2)) minPeriod (0, 0)
        in if bestPeriod > 0 then sampleRate / real bestPeriod else 0)"

section \<open>Modulation\<close>

definition window_max :: "real list \<Rightarrow> nat \<Rightarrow> nat \<Rightarrow> real" where
  \<comment> \<open>the inner loop of \<^verbatim>\<open>getAmplitudeModulation\<close> over one window\<close>
  "window_max timeDomain windowSize i =
     fold (\<lambda>j mx. max mx \<bar>timeDomain ! (i + j) - 128\<bar>) [0..<windowSize] 0"

function envelopes_from :: "real list \<Rightarrow> nat \<Rightarrow> nat \<Rightarrow> real list \<Rightarrow> real list" where
  \<comment> \<open>\<^verbatim>\<open>for (i = 0; i < timeDomain.length - windowSize; i += windowSize)\<close>, for a window
      size that is not 0\<close>
  "envelopes_from timeDomain windowSize i envelopes =
     (if windowSize > 0 \<and> int i < int (length timeDomain) - int windowSize then
        envelopes_from timeDomain windowSize (i + windowSize)
          (envelopes @ [window_max timeDomain windowSize i])
      else envelopes)"
  by pat_completeness auto
termination
  by (relation "measure (\<lambda>(timeDomain, windowSize, i, envelopes). length timeDomain - i)") auto

definition getAmplitudeModulation :: "real list \<Rightarrow> real" where
  "getAmplitudeModulation timeDomain =
     (if timeDomain = [] then 0
      else
        let windowSize = 64;
            envelopes = envelopes_from timeDomain windowSize 0 []
        in if length envelopes < 2 then 0
           else
             let mean = foldl (\<lambda>a b. a + b) 0 envelopes / real (length envelopes);
                 variance = foldl (\<lambda>acc val. acc + (val - mean) ^ 2) 0 envelopes
                              / real (length envelopes)
             in min 1 (sqrt variance / 64))"

definition getFrequencyModulation :: "analyzer \<Rightarrow> 8 word list \<Rightarrow> real \<times> analyzer" where
  "getFrequencyModulation a spectrum =
     (let (flux, a') = getSpectralFlux a spectrum in (min 1 (flux / 10), a'))"

section \<open>Cepstral coefficients\<close>

definition freqToMel :: "real \<Rightarrow> real" where
  "freqToMel f = 2595 * log 10 (1 + f / 700)"

definition melToFreq :: "real \<Rightarrow> real" where
  "melToFreq m = 700 * (10 powr (m / 2595) - 1)"

definition applyMelFilterbank :: "nat \<Rightarrow> real list \<Rightarrow> real \<Rightarrow> nat \<Rightarrow> real list" where
  \<comment> \<open>\<^verbatim>\<open>_applyMelFilterbank\<close>, for a sample rate that is not negative (the bins are indices).
      Inside the inner loop \<open>lowBin \<le> j < highBin\<close>, so the width that divides is positive on
      either side of the centre. With sample rate 0 the three bins are \<^verbatim>\<open>NaN\<close> and the inner loop
      does not run; here they are 0 and it does not run either\<close>
  "applyMelFilterbank nFilters spectrum sampleRate binCount =
     (let maxFreq = sampleRate / 2;
          minMel = freqToMel 0;
          maxMel = freqToMel maxFreq;
          melStep = (maxMel - minMel) / real (nFilters + 1)
      in map (\<lambda>i.
                let centerMel = minMel + real (i + 1) * melStep;
                    centerFreq = melToFreq centerMel;
                    lowFreq = melToFreq (centerMel - melStep);
                    highFreq = melToFreq (centerMel + melStep);
                    lowBin = nat \<lfloor>lowFreq / maxFreq * real binCount\<rfloor>;
                    centerBin = nat \<lfloor>centerFreq / maxFreq * real binCount\<rfloor>;
                    highBin = nat \<lfloor>highFreq / maxFreq * real binCount\<rfloor>
                in fold (\<lambda>j acc.
                           let weight =
                                 (if j < centerBin
                                  then (real j - real lowBin) / (real centerBin - real lowBin)
                                  else (real highBin - real j) / (real highBin - real centerBin))
                           in acc + spectrum ! j * max 0 weight)
                     [lowBin..<min highBin binCount] 0)
           [0..<nFilters])"

definition dct :: "real list \<Rightarrow> nat \<Rightarrow> real list" where
  "dct inp numCoeffs =
     (let N = length inp
      in map (\<lambda>k. fold (\<lambda>n acc. acc + inp ! n * cos (pi * real k * (real n + 0.5) / real N))
                     [0..<N] 0)
           [0..<numCoeffs])"

definition getMFCCs :: "analyzer \<Rightarrow> real \<Rightarrow> real list \<Rightarrow> real list" where
  "getMFCCs a sampleRate spectrum =
     (if spectrum = [] then replicate (numMFCCs a) 0
      else
        let binCount = length spectrum;
            melSpectrum = applyMelFilterbank (numMelFilters a) spectrum sampleRate binCount;
            logMelSpectrum = map (\<lambda>val. ln (val + 1)) melSpectrum
        in dct logMelSpectrum (numMFCCs a))"

section \<open>The feature record\<close>

record features =
  rms :: real
  peak :: real
  spectralCentroid :: real
  spectralSpread :: "real option"
  spectralFlux :: real
  spectralEntropy :: "real option"
  tonality :: real
  pitch :: real
  amplitudeModulation :: real
  frequencyModulation :: real
  mfccs :: "real list"

definition getAllFeatures :: "analyzer \<Rightarrow> engine \<Rightarrow> features \<times> analyzer" where
  \<comment> \<open>the properties of the object literal are evaluated in the order written: the call of
      \<^verbatim>\<open>getSpectralFlux\<close> for \<open>spectralFlux\<close> runs before the one inside
      \<^verbatim>\<open>getFrequencyModulation\<close>, on the same frame\<close>
  "getAllFeatures a e =
     (let (flux, a1) = getSpectralFlux a (frequencyData e);
          (fm, a2) = getFrequencyModulation a1 (frequencyData e)
      in (\<lparr>rms = getRMS (getTimeDomainData e),
           peak = getPeak (getTimeDomainData e),
           spectralCentroid = getSpectralCentroid (getSampleRate e) (getFrequencyData e),
           spectralSpread = getSpectralSpread (getSampleRate e) (getFrequencyData e),
           spectralFlux = flux,
           spectralEntropy = getSpectralEntropy (getFrequencyData e),
           tonality = getTonality (getFrequencyData e),
           pitch = getPitch (getSampleRate e) (getTimeDomainData e),
           amplitudeModulation = getAmplitudeModulation (getTimeDomainData e),
           frequencyModulation = fm,
           mfccs = getMFCCs a2 (getSampleRate e) (getFrequencyData e)\<rparr>,
          a2))"

section \<open>The entropy of the specification\<close>

definition shannon_entropy_smoothed :: "real list \<Rightarrow> real" where
  \<comment> \<open>the specification's words, to compare \<open>getSpectralEntropy\<close> with: the Shannon entropy, in
      bits, of the distribution of the magnitudes, each bin smoothed by \<open>+1\<close>\<close>
  "shannon_entropy_smoothed spectrum =
     - (\<Sum>i<length spectrum.
          (spectrum ! i + 1) / (\<Sum>j<length spectrum. spectrum ! j + 1)
          * log 2 ((spectrum ! i + 1) / (\<Sum>j<length spectrum. spectrum ! j + 1)))"

section \<open>Auxiliary facts\<close>

declare pitch_search.simps [simp del] envelopes_from.simps [simp del]

lemma num_nonneg: "0 \<le> num w"
  unfolding num_def by (rule of_nat_0_le_iff)

lemma num_le_255: "num w \<le> 255"
proof -
  have "unat w < 2 ^ 8" using unsigned_less [of w, where 'a = nat] by simp
  then have "unat w \<le> 255" by simp
  then have "real (unat w) \<le> real 255" by (rule of_nat_mono)
  then show ?thesis unfolding num_def by simp
qed

lemma num_0 [simp]: "num 0 = 0"
  by (simp add: num_def)

lemma num_128 [simp]: "num 128 = 128"
  by (simp add: num_def)

lemma num_255 [simp]: "num 255 = 255"
  by (simp add: num_def)

text \<open>A counting loop that adds to an accumulator is a finite sum.\<close>

lemma fold_add_upt: "fold (\<lambda>i acc. acc + f i) [0..<n] (a::real) = a + (\<Sum>i<n. f i)"
  by (induction n) simp_all

lemma fold_add2_upt:
  "fold (\<lambda>i (x, y). (x + f i, y + g i)) [0..<n] (a::real, b::real)
     = (a + (\<Sum>i<n. f i), b + (\<Sum>i<n. g i))"
  by (induction n) simp_all

lemma fold_sub_if_upt:
  "fold (\<lambda>i acc. if P i then acc - f i else acc) [0..<n] (a::real)
     = a - (\<Sum>i<n. if P i then f i else 0)"
  by (induction n) simp_all

lemma fold_upt_sum_gen:
  "(\<And>i acc. i < n \<Longrightarrow> f i acc = acc + g i) \<Longrightarrow>
   fold f [0..<n] (a::real) = a + (\<Sum>i<n. g i)"
  by (induction n) simp_all

text \<open>A loop whose body leaves the accumulator as it is returns it.\<close>

lemma fold_fixed:
  "(\<And>i. i \<in> set xs \<Longrightarrow> f i a = a) \<Longrightarrow> fold f xs a = a"
  by (induction xs) simp_all

section \<open>Waveform features of a centred constant buffer\<close>

lemma rms_silence: "getRMS (replicate n 128) = 0"
proof -
  have "fold (\<lambda>i acc. let normalized = (replicate n 128 ! i - 128) / 128
                       in acc + normalized * normalized) [0..<n] 0 = (0::real)"
    by (rule fold_fixed) simp
  then show ?thesis by (simp add: getRMS_def)
qed

lemma peak_silence: "getPeak (replicate n 128) = 0"
proof -
  have "fold (\<lambda>i mx. let normalized = \<bar>replicate n 128 ! i - 128\<bar> / 128
                       in if normalized > mx then normalized else mx) [0..<n] 0 = (0::real)"
    by (rule fold_fixed) simp
  then show ?thesis by (simp add: getPeak_def)
qed

section \<open>Spectral flux and the stored spectrum\<close>

lemma flux_first:
  "spectrum \<noteq> [] \<Longrightarrow> prevSpectrum a = None \<Longrightarrow>
   getSpectralFlux a spectrum = (0, a\<lparr>prevSpectrum := Some spectrum\<rparr>)"
  by (simp add: getSpectralFlux_def)

lemma flux_later:
  assumes "spectrum \<noteq> []" "prevSpectrum a = Some prev"
  shows "getSpectralFlux a spectrum =
     ((\<Sum>i<length spectrum.
          if i < length prev then max 0 (num (spectrum ! i) - num (prev ! i)) else 0)
        / real (length spectrum),
      a\<lparr>prevSpectrum := Some spectrum\<rparr>)"
proof -
  have "fold (\<lambda>i flux. if i < length prev then
                          let diff = num (spectrum ! i) - num (prev ! i)
                          in flux + (if diff > 0 then diff else 0)
                        else flux + 0) [0..<length spectrum] 0
        = 0 + (\<Sum>i<length spectrum.
                 if i < length prev then max 0 (num (spectrum ! i) - num (prev ! i)) else 0)"
    by (rule fold_upt_sum_gen) (simp add: Let_def max_def)
  then show ?thesis using assms by (simp add: getSpectralFlux_def Let_def)
qed

lemma flux_same:
  assumes "prevSpectrum a = Some spectrum"
  shows "fst (getSpectralFlux a spectrum) = 0"
proof (cases "spectrum = []")
  case True
  then show ?thesis by (simp add: getSpectralFlux_def)
next
  case False
  show ?thesis unfolding flux_later [OF False assms] by simp
qed

lemma flux_stores:
  "spectrum \<noteq> [] \<Longrightarrow> prevSpectrum (snd (getSpectralFlux a spectrum)) = Some spectrum"
  by (cases "prevSpectrum a") (simp_all add: flux_first flux_later)

lemma flux_zero_spectrum: "fst (getSpectralFlux a (replicate n 0)) = 0"
proof (cases "n = 0")
  case True
  then show ?thesis by (simp add: getSpectralFlux_def)
next
  case False
  then have ne: "replicate n (0::8 word) \<noteq> []" by auto
  show ?thesis
  proof (cases "prevSpectrum a")
    case None
    then show ?thesis using flux_first [OF ne] by simp
  next
    case (Some prev)
    have "(\<Sum>i<n. if i < length prev
                   then max 0 (num (replicate n 0 ! i) - num (prev ! i)) else 0)
          = (\<Sum>i<n. 0::real)"
      by (rule sum.cong) (simp_all add: max_absorb1 num_nonneg)
    then show ?thesis unfolding flux_later [OF ne Some] by simp
  qed
qed

text \<open>
  C4. With no stored spectrum (the state the constructor leaves, and any state whose baseline
  was cleared) \<open>getSpectralFlux\<close> returns 0 whatever the magnitudes are and stores the current
  spectrum; with a stored spectrum of the same length it returns the sum over the bins of the
  positive differences, divided by the bin count, and stores the current spectrum. The spectrum
  is one that has bins: on an empty buffer the function returns 0 before it touches the state.
\<close>

theorem getSpectralFlux_baseline:
  assumes "spectrum \<noteq> []"
  shows "(prevSpectrum a = None \<longrightarrow>
            getSpectralFlux a spectrum = (0, a\<lparr>prevSpectrum := Some spectrum\<rparr>))
       \<and> (\<forall>prev. prevSpectrum a = Some prev \<and> length prev = length spectrum \<longrightarrow>
            getSpectralFlux a spectrum =
              ((\<Sum>i<length spectrum. max 0 (num (spectrum ! i) - num (prev ! i)))
                 / real (length spectrum),
               a\<lparr>prevSpectrum := Some spectrum\<rparr>))
       \<and> getSpectralFlux AudioAnalyzer spectrum
           = (0, AudioAnalyzer\<lparr>prevSpectrum := Some spectrum\<rparr>)"
proof (intro conjI impI allI)
  assume "prevSpectrum a = None"
  then show "getSpectralFlux a spectrum = (0, a\<lparr>prevSpectrum := Some spectrum\<rparr>)"
    using assms by (rule flux_first [rotated])
next
  fix prev assume h: "prevSpectrum a = Some prev \<and> length prev = length spectrum"
  then have "(\<Sum>i<length spectrum.
                if i < length prev then max 0 (num (spectrum ! i) - num (prev ! i)) else 0)
     = (\<Sum>i<length spectrum. max 0 (num (spectrum ! i) - num (prev ! i)))"
    by (intro sum.cong) auto
  then show "getSpectralFlux a spectrum =
              ((\<Sum>i<length spectrum. max 0 (num (spectrum ! i) - num (prev ! i)))
                 / real (length spectrum),
               a\<lparr>prevSpectrum := Some spectrum\<rparr>)"
    using flux_later [OF assms, of a prev] h by simp
next
  show "getSpectralFlux AudioAnalyzer spectrum
          = (0, AudioAnalyzer\<lparr>prevSpectrum := Some spectrum\<rparr>)"
    using assms by (simp add: flux_first AudioAnalyzer_def)
qed

theorem getSpectralFlux_baseline_witness:
  "getSpectralFlux (AudioAnalyzer\<lparr>prevSpectrum := None\<rparr>) [200, 10]
     = (0, AudioAnalyzer\<lparr>prevSpectrum := Some [200, 10]\<rparr>)
   \<and> getSpectralFlux (AudioAnalyzer\<lparr>prevSpectrum := Some [100, 50]\<rparr>) [200, 10]
     = (50, AudioAnalyzer\<lparr>prevSpectrum := Some [200, 10]\<rparr>)"
proof -
  have ne: "[200, 10 :: 8 word] \<noteq> []" by simp
  show ?thesis
    using getSpectralFlux_baseline [OF ne, of "AudioAnalyzer\<lparr>prevSpectrum := None\<rparr>"]
          getSpectralFlux_baseline [OF ne, of "AudioAnalyzer\<lparr>prevSpectrum := Some [100, 50]\<rparr>"]
    by (simp add: AudioAnalyzer_def num_def)
qed

subsection \<open>The two flux calls of one frame\<close>

lemma getAllFeatures_spectralFlux:
  "spectralFlux (fst (getAllFeatures a e)) = fst (getSpectralFlux a (frequencyData e))"
  by (simp add: getAllFeatures_def split_def Let_def)

lemma getAllFeatures_frequencyModulation:
  "frequencyModulation (fst (getAllFeatures a e))
     = min 1 (fst (getSpectralFlux (snd (getSpectralFlux a (frequencyData e)))
                     (frequencyData e)) / 10)"
  by (simp add: getAllFeatures_def getFrequencyModulation_def split_def Let_def)

text \<open>
  The call of \<open>getSpectralFlux\<close> inside \<open>getFrequencyModulation\<close> compares the frame with the
  copy of itself that the call for the \<open>spectralFlux\<close> field has just stored: the field
  \<open>frequencyModulation\<close> is 0 on every frame.
\<close>

lemma getAllFeatures_frequencyModulation_zero:
  "frequencyModulation (fst (getAllFeatures a e)) = 0"
proof (cases "frequencyData e = []")
  case True
  then show ?thesis
    by (simp add: getAllFeatures_frequencyModulation getSpectralFlux_def)
next
  case False
  then show ?thesis
    by (simp add: getAllFeatures_frequencyModulation flux_same [OF flux_stores])
qed

text \<open>
  C3. Claimed: the \<open>frequencyModulation\<close> field is \<open>min(1, spectralFlux / 10)\<close> of the record's own
  \<open>spectralFlux\<close> field. On a frame whose one bin rises from 0 to 255 the record has
  \<open>spectralFlux = 255\<close>, so the claimed value is 1, and \<open>frequencyModulation = 0\<close>.
\<close>

theorem getAllFeatures_frequencyModulation_not_flux:
  "spectralFlux (fst (getAllFeatures (AudioAnalyzer\<lparr>prevSpectrum := Some [0]\<rparr>)
       \<lparr>frequencyData = [255], timeDomainData = [128], contextSampleRate = 44100\<rparr>)) = 255
   \<and> frequencyModulation (fst (getAllFeatures (AudioAnalyzer\<lparr>prevSpectrum := Some [0]\<rparr>)
       \<lparr>frequencyData = [255], timeDomainData = [128], contextSampleRate = 44100\<rparr>)) = 0
   \<and> min 1 (255 / 10) = (1::real)"
  by (simp add: getAllFeatures_spectralFlux getAllFeatures_frequencyModulation_zero flux_later)

section \<open>Spectral entropy\<close>

lemma entropy_one_bin: "getSpectralEntropy [num w] = None"
proof -
  have "num w + 1 \<noteq> 0" using num_nonneg [of w] by linarith
  then show ?thesis
    by (simp add: getSpectralEntropy_def jsdiv_def Let_def)
qed

lemma entropy_sums:
  "spectrum \<noteq> [] \<Longrightarrow> getSpectralEntropy spectrum =
     (let n = length spectrum; total = (\<Sum>i<n. spectrum ! i + 1) in
      if total = 0 then Some 0
      else jsdiv (- (\<Sum>i<n. if (spectrum ! i + 1) / total > 0
                             then (spectrum ! i + 1) / total * log 2 ((spectrum ! i + 1) / total)
                             else 0))
             (log 2 (real n)))"
  by (simp add: getSpectralEntropy_def Let_def fold_add_upt fold_sub_if_upt)

lemma entropy_uniform:
  assumes "2 \<le> n" "v + 1 > 0"
  shows "getSpectralEntropy (replicate n v) = Some 1"
proof -
  have n0: "real n > 0" using assms by simp
  have ne: "replicate n v \<noteq> []" using assms by auto
  have tot: "(\<Sum>i<n. replicate n v ! i + 1) = real n * (v + 1)" by simp
  have totpos: "real n * (v + 1) > 0" using n0 assms by simp
  have p: "(v + 1) / (real n * (v + 1)) = 1 / real n" using assms by simp
  have "1 < real n" using assms by simp
  then have "0 < log 2 (real n)" by simp
  then have l: "log 2 (real n) \<noteq> 0" by simp
  have "(\<Sum>i<n. if (replicate n v ! i + 1) / (real n * (v + 1)) > 0
           then (replicate n v ! i + 1) / (real n * (v + 1))
                  * log 2 ((replicate n v ! i + 1) / (real n * (v + 1)))
           else 0)
        = (\<Sum>i<n. 1 / real n * log 2 (1 / real n))"
    by (rule sum.cong) (use n0 p in auto)
  also have "\<dots> = log 2 (1 / real n)" using n0 by simp
  also have "\<dots> = - log 2 (real n)" using n0 by (simp add: log_divide)
  finally have S: "(\<Sum>i<n. if (replicate n v ! i + 1) / (real n * (v + 1)) > 0
           then (replicate n v ! i + 1) / (real n * (v + 1))
                  * log 2 ((replicate n v ! i + 1) / (real n * (v + 1)))
           else 0) = - log 2 (real n)" .
  show ?thesis
    unfolding entropy_sums [OF ne] Let_def length_replicate tot S
    using totpos l n0 assms by (simp add: jsdiv_def)
qed

subsection \<open>The entropy is the normalised Shannon entropy, between 0 and 1\<close>

lemma gibbs:
  assumes pos: "\<And>i. i < n \<Longrightarrow> 0 < p i" and one: "(\<Sum>i<n. p i) = 1" and n: "0 < n"
  shows "- (\<Sum>i<n. p i * ln (p i)) \<le> ln (real n)"
proof -
  have tm: "- (p i * ln (p i)) - p i * ln (real n) \<le> 1 / real n - p i" if "i < n" for i
  proof -
    have pi: "0 < p i" using pos that .
    have np: "0 < real n * p i" using n pi by simp
    have "ln (1 / (real n * p i)) \<le> 1 / (real n * p i) - 1"
      by (rule ln_le_minus_one) (use np in simp)
    moreover have "ln (1 / (real n * p i)) = - ln (real n) - ln (p i)"
      using n pi by (simp add: ln_div ln_mult)
    ultimately have "- ln (real n) - ln (p i) \<le> 1 / (real n * p i) - 1" by simp
    then have "p i * (- ln (real n) - ln (p i)) \<le> p i * (1 / (real n * p i) - 1)"
      using pi by (intro mult_left_mono) simp_all
    moreover have "p i * (1 / (real n * p i) - 1) = 1 / real n - p i"
      using pi n by (simp add: field_simps)
    ultimately show ?thesis by (simp add: algebra_simps)
  qed
  have "(\<Sum>i<n. - (p i * ln (p i)) - p i * ln (real n)) \<le> (\<Sum>i<n. 1 / real n - p i)"
    by (rule sum_mono) (use tm in simp)
  moreover have "(\<Sum>i<n. 1 / real n - p i) = 0"
    using n one by (simp add: sum_subtractf)
  moreover have "(\<Sum>i<n. - (p i * ln (p i)) - p i * ln (real n))
                 = - (\<Sum>i<n. p i * ln (p i)) - ln (real n)"
    using one by (simp add: sum_subtractf sum_negf sum_distrib_right [symmetric])
  ultimately show ?thesis by simp
qed

lemma entropy_terms_nonneg:
  fixes p :: "nat \<Rightarrow> real"
  assumes pos: "\<And>i. i < n \<Longrightarrow> 0 < p i" and le: "\<And>i. i < n \<Longrightarrow> p i \<le> 1"
  shows "0 \<le> - (\<Sum>i<n. p i * ln (p i))"
proof -
  have "p i * ln (p i) \<le> 0" if "i < n" for i
  proof -
    have "ln (p i) \<le> 0" using pos [OF that] le [OF that] by simp
    then show ?thesis using pos [OF that] by (intro mult_nonneg_nonpos) simp_all
  qed
  then have "(\<Sum>i<n. p i * ln (p i)) \<le> (\<Sum>i<n. 0)" by (intro sum_mono) simp
  then show ?thesis by simp
qed


lemma log2_pos: "2 \<le> (n::nat) \<Longrightarrow> 0 < log 2 (real n)"
proof -
  assume "2 \<le> n"
  then have "1 < real n" by simp
  then show ?thesis by simp
qed

lemma smoothed_total_pos:
  fixes s :: "real list"
  assumes "s \<noteq> []" and nonneg: "\<And>i. i < length s \<Longrightarrow> 0 \<le> s ! i"
  shows "0 < (\<Sum>i<length s. s ! i + 1)"
proof (rule sum_pos)
  show "finite {..<length s}" by simp
  show "{..<length s} \<noteq> {}" using assms(1) by auto
  fix i assume "i \<in> {..<length s}"
  then show "0 < s ! i + 1" using nonneg [of i] by simp
qed

lemma smoothed_prob:
  fixes s :: "real list"
  assumes "s \<noteq> []" and nonneg: "\<And>i. i < length s \<Longrightarrow> 0 \<le> s ! i" and i: "i < length s"
  shows "0 < (s ! i + 1) / (\<Sum>j<length s. s ! j + 1)"
    and "(s ! i + 1) / (\<Sum>j<length s. s ! j + 1) \<le> 1"
proof -
  have T: "0 < (\<Sum>j<length s. s ! j + 1)" using assms(1) nonneg by (rule smoothed_total_pos)
  have a: "0 < s ! i + 1" using nonneg [OF i] by simp
  show "0 < (s ! i + 1) / (\<Sum>j<length s. s ! j + 1)" using T a by simp
  have "s ! i + 1 \<le> (\<Sum>j<length s. s ! j + 1)"
  proof (rule member_le_sum)
    show "i \<in> {..<length s}" using i by simp
    show "finite {..<length s}" by simp
    fix j assume "j \<in> {..<length s} - {i}"
    then show "0 \<le> s ! j + 1" using nonneg [of j] by simp
  qed
  then show "(s ! i + 1) / (\<Sum>j<length s. s ! j + 1) \<le> 1" using T by simp
qed

lemma entropy_is_shannon:
  fixes s :: "real list"
  assumes len: "2 \<le> length s" and nonneg: "\<And>i. i < length s \<Longrightarrow> 0 \<le> s ! i"
  shows "getSpectralEntropy s = Some (shannon_entropy_smoothed s / log 2 (real (length s)))"
proof -
  have ne: "s \<noteq> []" using len by (cases s) simp_all
  have T: "(\<Sum>j<length s. s ! j + 1) \<noteq> 0"
    using smoothed_total_pos [OF ne nonneg] by simp
  have "0 < log 2 (real (length s))" using len by (rule log2_pos)
  then have l: "log 2 (real (length s)) \<noteq> 0" by simp
  have S: "(\<Sum>i<length s. if (s ! i + 1) / (\<Sum>j<length s. s ! j + 1) > 0
             then (s ! i + 1) / (\<Sum>j<length s. s ! j + 1)
                    * log 2 ((s ! i + 1) / (\<Sum>j<length s. s ! j + 1))
             else 0)
           = (\<Sum>i<length s. (s ! i + 1) / (\<Sum>j<length s. s ! j + 1)
                    * log 2 ((s ! i + 1) / (\<Sum>j<length s. s ! j + 1)))"
    by (rule sum.cong) (use smoothed_prob(1) [OF ne nonneg] in auto)
  show ?thesis
    unfolding entropy_sums [OF ne] Let_def S shannon_entropy_smoothed_def
    using T l by (simp add: jsdiv_def)
qed

lemma shannon_bounds:
  fixes s :: "real list"
  assumes len: "2 \<le> length s" and nonneg: "\<And>i. i < length s \<Longrightarrow> 0 \<le> s ! i"
  shows "0 \<le> shannon_entropy_smoothed s / log 2 (real (length s))"
    and "shannon_entropy_smoothed s / log 2 (real (length s)) \<le> 1"
proof -
  define n where "n = length s"
  define p where "p i = (s ! i + 1) / (\<Sum>j<length s. s ! j + 1)" for i
  have ne: "s \<noteq> []" using len by (cases s) simp_all
  have n0: "0 < n" using ne by (simp add: n_def)
  have pos: "0 < p i" if "i < n" for i
    unfolding p_def using smoothed_prob(1) [OF ne nonneg] that by (simp add: n_def)
  have le1: "p i \<le> 1" if "i < n" for i
    unfolding p_def using smoothed_prob(2) [OF ne nonneg] that by (simp add: n_def)
  have T: "(\<Sum>j<length s. s ! j + 1) \<noteq> 0"
    using smoothed_total_pos [OF ne nonneg] by simp
  have one: "(\<Sum>i<n. p i) = 1"
    unfolding p_def n_def sum_divide_distrib [symmetric] using T by simp
  have sh: "shannon_entropy_smoothed s = - (\<Sum>i<n. p i * ln (p i)) / ln 2"
    unfolding shannon_entropy_smoothed_def p_def n_def log_def
    by (simp add: sum_divide_distrib)
  have lpos: "0 < log 2 (real n)" unfolding n_def using len by (rule log2_pos)
  have ln2: "0 < ln (2::real)" by simp
  have lo: "0 \<le> - (\<Sum>i<n. p i * ln (p i))" using pos le1 by (rule entropy_terms_nonneg)
  have up: "- (\<Sum>i<n. p i * ln (p i)) \<le> ln (real n)" using pos one n0 by (rule gibbs)
  have "0 \<le> shannon_entropy_smoothed s" unfolding sh using lo ln2 by (rule divide_nonneg_pos)
  then show "0 \<le> shannon_entropy_smoothed s / log 2 (real (length s))"
    using lpos by (simp add: n_def)
  have "shannon_entropy_smoothed s \<le> log 2 (real n)"
    unfolding sh log_def using up by (rule divide_right_mono) (use ln2 in simp)
  then show "shannon_entropy_smoothed s / log 2 (real (length s)) \<le> 1"
    using lpos by (simp add: n_def)
qed

lemma sum_single_bin:
  assumes "k < n"
  shows "(\<Sum>i<n. (replicate n 0)[k := m] ! i) = (m::real)"
proof -
  have "(\<Sum>i<n. (replicate n 0)[k := m] ! i) = (\<Sum>i<n. if i = k then m else 0)"
    by (rule sum.cong) (auto simp: nth_list_update)
  also have "\<dots> = m" using assms by simp
  finally show ?thesis .
qed

lemma shannon_single_peak:
  assumes n: "2 \<le> n" and k: "k < n" and m: "0 \<le> m"
  shows "real (n - 1) / (real n + m)
           \<le> shannon_entropy_smoothed ((replicate n 0)[k := m]) / log 2 (real n)"
proof -
  define s where "s = (replicate n (0::real))[k := m]"
  define T where "T = real n + m"
  define h where "h i = - ((s ! i + 1) / T * log 2 ((s ! i + 1) / T))" for i
  have len: "length s = n" by (simp add: s_def)
  have n1: "1 \<le> real n" using n by simp
  have Tn: "real n \<le> T" using m by (simp add: T_def)
  have Tpos: "0 < T" using Tn n1 by linarith
  have tot: "(\<Sum>j<n. s ! j + 1) = T"
    unfolding s_def T_def using sum_single_bin [OF k, of m] by (simp add: sum.distrib)
  have sh: "shannon_entropy_smoothed s = (\<Sum>i<n. h i)"
    unfolding shannon_entropy_smoothed_def len tot h_def by (simp add: sum_negf)
  have hk: "0 \<le> h k"
  proof -
    have "s ! k = m" using k by (simp add: s_def)
    then have "(s ! k + 1) / T \<le> 1" "0 < (s ! k + 1) / T"
      using Tpos m n1 by (simp_all add: T_def)
    then have "log 2 ((s ! k + 1) / T) \<le> 0" by simp
    then have "(s ! k + 1) / T * log 2 ((s ! k + 1) / T) \<le> 0"
      using \<open>0 < (s ! k + 1) / T\<close> by (intro mult_nonneg_nonpos) simp_all
    then show ?thesis by (simp add: h_def)
  qed
  have hi: "h i = log 2 T / T" if "i < n" "i \<noteq> k" for i
  proof -
    have "s ! i = 0" using that by (simp add: s_def)
    then have "h i = - (1 / T * log 2 (1 / T))" by (simp add: h_def)
    also have "log 2 (1 / T) = - log 2 T" using Tpos by (simp add: log_divide)
    finally show ?thesis by simp
  qed
  have card: "card ({..<n} - {k}) = n - 1" using k by simp
  have "real (n - 1) * (log 2 T / T) = (\<Sum>i\<in>{..<n} - {k}. log 2 T / T)"
    by (simp only: sum_constant card)
  also have "\<dots> = (\<Sum>i\<in>{..<n} - {k}. h i)"
    by (rule sum.cong) (use hi in auto)
  also have "\<dots> \<le> (\<Sum>i<n. h i)"
    by (rule sum_mono2) (use hk in auto)
  finally have low: "real (n - 1) * (log 2 T / T) \<le> shannon_entropy_smoothed s"
    unfolding sh .
  have lpos: "0 < log 2 (real n)" using n by (rule log2_pos)
  have "log 2 (real n) \<le> log 2 T" using Tn n1 Tpos by simp
  then have "real (n - 1) * (log 2 (real n) / T) \<le> real (n - 1) * (log 2 T / T)"
    using Tpos by (intro mult_left_mono divide_right_mono) simp_all
  with low have "real (n - 1) * (log 2 (real n) / T) \<le> shannon_entropy_smoothed s" by linarith
  then have "real (n - 1) * (log 2 (real n) / T) / log 2 (real n)
             \<le> shannon_entropy_smoothed s / log 2 (real n)"
    using lpos by (intro divide_right_mono) simp_all
  moreover have "real (n - 1) * (log 2 (real n) / T) / log 2 (real n) = real (n - 1) / T"
    using lpos by simp
  ultimately show ?thesis unfolding s_def T_def by simp
qed

lemma map_num_nonneg: "i < length (map num ws) \<Longrightarrow> 0 \<le> map num ws ! i"
  by (simp add: num_nonneg)

text \<open>
  C1. Claimed: every field of the record of \<open>getAllFeatures\<close> is a finite number, for buffers of
  any length, a 1-bin spectrum included, the division by \<open>log2(binCount)\<close> being guarded.
  The code does not guard that division: with one bin the entropy and its normaliser are both 0,
  and the \<open>spectralEntropy\<close> field is \<^verbatim>\<open>0 / 0\<close>, not a finite number, whatever the bin, the
  waveform, the sample rate and the stored state are.
\<close>

theorem getAllFeatures_entropy_one_bin_not_finite:
  "spectralEntropy
     (fst (getAllFeatures a \<lparr>frequencyData = [w], timeDomainData = t, contextSampleRate = sr\<rparr>))
   = None"
  by (simp add: getAllFeatures_def split_def Let_def getFrequencyData_def entropy_one_bin)

text \<open>
  C8. Claimed: the entropy is the Shannon entropy of the magnitudes smoothed by \<open>+1\<close>, over
  \<open>log2(binCount)\<close>, equal to 1 on a flat spectrum and near 0 on a spectrum concentrated in one
  bin. The last part fails: the smoothing gives every empty bin the weight 1, and with the 1024
  bins of the analyser and one bin at the largest byte 255 the entropy is above \<open>3/4\<close>.
\<close>

theorem getSpectralEntropy_single_peak_not_near_zero:
  "case getSpectralEntropy (map num ((replicate 1024 0)[100 := 255])) of
     None \<Rightarrow> False | Some e \<Rightarrow> 3 / 4 < e"
proof -
  let ?s = "(replicate 1024 (0::real))[100 := 255]"
  have m: "map num ((replicate 1024 0)[100 := 255]) = ?s" by (simp add: map_update)
  have len: "2 \<le> length ?s" by simp
  have nn: "0 \<le> ?s ! i" if "i < length ?s" for i
    using that by (simp add: nth_list_update)
  have e: "getSpectralEntropy ?s = Some (shannon_entropy_smoothed ?s / log 2 (real (length ?s)))"
    using len nn by (rule entropy_is_shannon)
  have "real (1024 - 1) / (real 1024 + 255) \<le> shannon_entropy_smoothed ?s / log 2 (real 1024)"
    by (rule shannon_single_peak) simp_all
  then have "3 / 4 < shannon_entropy_smoothed ?s / log 2 (real (length ?s))" by simp
  then show ?thesis unfolding m e by simp
qed

text \<open>
  C8, amended. On a byte spectrum of at least 2 bins \<open>getSpectralEntropy\<close> is the Shannon entropy
  of the \<open>+1\<close>-smoothed magnitudes over \<open>log2(binCount)\<close>; it lies between 0 and 1, and is 1
  on a uniform spectrum; on a spectrum that is 0 but for one bin of magnitude \<open>w\<close> it is at least
  \<open>(binCount - 1) / (binCount + w)\<close>, so it is not near 0 unless the bin count is small against
  the magnitude.
\<close>

theorem getSpectralEntropy_normalised_shannon:
  assumes "2 \<le> length ws"
  shows "getSpectralEntropy (map num ws)
           = Some (shannon_entropy_smoothed (map num ws) / log 2 (real (length ws)))
       \<and> 0 \<le> shannon_entropy_smoothed (map num ws) / log 2 (real (length ws))
       \<and> shannon_entropy_smoothed (map num ws) / log 2 (real (length ws)) \<le> 1
       \<and> (ws = replicate (length ws) w \<longrightarrow> getSpectralEntropy (map num ws) = Some 1)
       \<and> (k < length ws \<and> ws = (replicate (length ws) 0)[k := w] \<longrightarrow>
            real (length ws - 1) / (real (length ws) + num w)
              \<le> shannon_entropy_smoothed (map num ws) / log 2 (real (length ws)))"
proof (intro conjI impI)
  have len: "2 \<le> length (map num ws)" using assms by simp
  show "getSpectralEntropy (map num ws)
           = Some (shannon_entropy_smoothed (map num ws) / log 2 (real (length ws)))"
    using entropy_is_shannon [OF len map_num_nonneg] by simp
  show "0 \<le> shannon_entropy_smoothed (map num ws) / log 2 (real (length ws))"
    using shannon_bounds(1) [OF len map_num_nonneg] by simp
  show "shannon_entropy_smoothed (map num ws) / log 2 (real (length ws)) \<le> 1"
    using shannon_bounds(2) [OF len map_num_nonneg] by simp
next
  assume u: "ws = replicate (length ws) w"
  have "0 < num w + 1" using num_nonneg [of w] by linarith
  with assms have "getSpectralEntropy (replicate (length ws) (num w)) = Some 1"
    by (rule entropy_uniform)
  moreover have "map num ws = replicate (length ws) (num w)"
    by (subst u) simp
  ultimately show "getSpectralEntropy (map num ws) = Some 1" by simp
next
  assume p: "k < length ws \<and> ws = (replicate (length ws) 0)[k := w]"
  then have "map num ws = (replicate (length ws) 0)[k := num w]"
    by (metis map_replicate map_update num_0)
  moreover have "real (length ws - 1) / (real (length ws) + num w)
        \<le> shannon_entropy_smoothed ((replicate (length ws) 0)[k := num w]) / log 2 (real (length ws))"
    using assms p num_nonneg by (intro shannon_single_peak) simp_all
  ultimately show "real (length ws - 1) / (real (length ws) + num w)
              \<le> shannon_entropy_smoothed (map num ws) / log 2 (real (length ws))"
    by simp
qed

theorem getSpectralEntropy_normalised_shannon_witness:
  "getSpectralEntropy (map num [7, 7]) = Some 1
   \<and> 1 / 257 \<le> shannon_entropy_smoothed (map num [0, 255]) / log 2 2
   \<and> shannon_entropy_smoothed (map num [0, 255]) / log 2 2 \<le> 1"
proof -
  have a: "(2::nat) \<le> length [7, 7 :: 8 word]" by simp
  have b: "(2::nat) \<le> length [0, 255 :: 8 word]" by simp
  have ua: "[7, 7 :: 8 word] = replicate (length [7, 7 :: 8 word]) 7" by simp
  have ub: "(1::nat) < length [0, 255 :: 8 word]
            \<and> [0, 255 :: 8 word] = (replicate (length [0, 255 :: 8 word]) 0)[1 := 255]"
    by simp
  note A = getSpectralEntropy_normalised_shannon [OF a, where w = 7 and k = 0]
  note B = getSpectralEntropy_normalised_shannon [OF b, where w = 255 and k = 1]
  have 1: "getSpectralEntropy (map num [7, 7]) = Some 1" using A ua by blast
  have 2: "real (length [0, 255 :: 8 word] - 1) / (real (length [0, 255 :: 8 word]) + num 255)
             \<le> shannon_entropy_smoothed (map num [0, 255]) / log 2 (real (length [0, 255 :: 8 word]))"
    using B ub by blast
  have 3: "shannon_entropy_smoothed (map num [0, 255]) / log 2 (real (length [0, 255 :: 8 word])) \<le> 1"
    using B by blast
  show ?thesis using 1 2 3 by simp
qed

section \<open>Spectral centroid and spread\<close>

lemma centroid_sums:
  "spectrum \<noteq> [] \<Longrightarrow> getSpectralCentroid sampleRate spectrum =
     (let n = length spectrum; freqPerBin = sampleRate / (real n * 2);
          total = (\<Sum>i<n. spectrum ! i)
      in if total > 0 then (\<Sum>i<n. spectrum ! i * (real i * freqPerBin)) / total else 0)"
  by (simp add: getSpectralCentroid_def Let_def fold_add2_upt)

lemma spread_sums:
  "spectrum \<noteq> [] \<Longrightarrow> getSpectralSpread sampleRate spectrum =
     (let n = length spectrum; freqPerBin = sampleRate / (real n * 2);
          centroid = getSpectralCentroid sampleRate spectrum;
          total = (\<Sum>i<n. spectrum ! i)
      in if total > 0
         then jssqrt ((\<Sum>i<n. spectrum ! i * (real i * freqPerBin - centroid) * (real i * freqPerBin - centroid)) / total)
         else Some 0)"
  by (simp add: getSpectralSpread_def Let_def fold_add2_upt)

lemma centroid_scale:
  assumes "0 < c"
  shows "getSpectralCentroid sampleRate (map ((*) c) spectrum) = getSpectralCentroid sampleRate spectrum"
proof (cases "spectrum = []")
  case True then show ?thesis by simp
next
  case False
  then have ne: "map ((*) c) spectrum \<noteq> []" by simp
  let ?n = "length spectrum"
  let ?f = "sampleRate / (real ?n * 2)"
  have t: "(\<Sum>i<?n. map ((*) c) spectrum ! i) = c * (\<Sum>i<?n. spectrum ! i)"
    by (simp add: sum_distrib_left)
  have w: "(\<Sum>i<?n. map ((*) c) spectrum ! i * (real i * ?f)) = c * (\<Sum>i<?n. spectrum ! i * (real i * ?f))"
    by (simp add: sum_distrib_left mult.assoc)
  show ?thesis
    unfolding centroid_sums [OF ne] centroid_sums [OF False] Let_def length_map t w
    using assms by (simp add: zero_less_mult_iff)
qed

lemma spread_scale:
  assumes "0 < c"
  shows "getSpectralSpread sampleRate (map ((*) c) spectrum) = getSpectralSpread sampleRate spectrum"
proof (cases "spectrum = []")
  case True then show ?thesis by simp
next
  case False
  then have ne: "map ((*) c) spectrum \<noteq> []" by simp
  let ?n = "length spectrum"
  let ?f = "sampleRate / (real ?n * 2)"
  let ?m = "getSpectralCentroid sampleRate spectrum"
  have t: "(\<Sum>i<?n. map ((*) c) spectrum ! i) = c * (\<Sum>i<?n. spectrum ! i)"
    by (simp add: sum_distrib_left)
  have w: "(\<Sum>i<?n. map ((*) c) spectrum ! i * (real i * ?f - ?m) * (real i * ?f - ?m))
         = c * (\<Sum>i<?n. spectrum ! i * (real i * ?f - ?m) * (real i * ?f - ?m))"
    by (simp add: sum_distrib_left mult.assoc)
  show ?thesis
    unfolding spread_sums [OF ne] spread_sums [OF False] Let_def length_map centroid_scale [OF assms] t w
    using assms by (simp add: zero_less_mult_iff)
qed

lemma centroid_single_bin:
  assumes "k < n" "0 < m"
  shows "getSpectralCentroid sampleRate ((replicate n 0)[k := m]) = real k * (sampleRate / (real n * 2))"
proof -
  have ne: "(replicate n (0::real))[k := m] \<noteq> []" using assms by auto
  have t: "(\<Sum>i<n. (replicate n 0)[k := m] ! i) = m"
  proof -
    have "(\<Sum>i<n. (replicate n 0)[k := m] ! i) = (\<Sum>i<n. if i = k then m else 0)"
      by (rule sum.cong) (auto simp: nth_list_update)
    also have "\<dots> = m" using assms by simp
    finally show ?thesis .
  qed
  have w: "(\<Sum>i<n. (replicate n 0)[k := m] ! i * (real i * f)) = m * (real k * f)" for f
  proof -
    have "(\<Sum>i<n. (replicate n 0)[k := m] ! i * (real i * f)) = (\<Sum>i<n. if i = k then m * (real k * f) else 0)"
      by (rule sum.cong) (auto simp: nth_list_update)
    also have "\<dots> = m * (real k * f)" using assms by simp
    finally show ?thesis .
  qed
  show ?thesis
    unfolding centroid_sums [OF ne] Let_def length_list_update length_replicate t w
    using assms by simp
qed

lemma map_num_single:
  "map num ((replicate n 0)[k := 255]) = (replicate n 0)[k := 255]"
  by (simp add: map_update)

text \<open>
  C6. \<open>getSpectralCentroid\<close> is the magnitude-weighted mean of the bin frequencies
  \<open>i * freqPerBin\<close>, with \<open>freqPerBin = sampleRate / (2 * binCount)\<close>, and 0 when the total
  magnitude is not positive (no division then); on 1024 bins that are 0 but for bin 100 at 255,
  at sample rate 44100, it is \<open>100 * 44100 / (1024 * 2)\<close>.
\<close>

theorem getSpectralCentroid_weighted_mean:
  "getSpectralCentroid sampleRate spectrum =
     (if spectrum = [] then 0
      else if (\<Sum>i<length spectrum. spectrum ! i) > 0
      then (\<Sum>i<length spectrum. spectrum ! i * (real i * (sampleRate / (2 * real (length spectrum)))))
             / (\<Sum>i<length spectrum. spectrum ! i)
      else 0)
   \<and> getSpectralCentroid 44100 (map num ((replicate 1024 0)[100 := 255])) = 100 * 44100 / (1024 * 2)"
proof
  show "getSpectralCentroid sampleRate spectrum =
     (if spectrum = [] then 0
      else if (\<Sum>i<length spectrum. spectrum ! i) > 0
      then (\<Sum>i<length spectrum. spectrum ! i * (real i * (sampleRate / (2 * real (length spectrum)))))
             / (\<Sum>i<length spectrum. spectrum ! i)
      else 0)"
  proof (cases "spectrum = []")
    case True then show ?thesis by (simp add: getSpectralCentroid_def)
  next
    case False
    show ?thesis unfolding centroid_sums [OF False] Let_def using False by (simp add: mult.commute)
  qed
  show "getSpectralCentroid 44100 (map num ((replicate 1024 0)[100 := 255])) = 100 * 44100 / (1024 * 2)"
    unfolding map_num_single by (subst centroid_single_bin) simp_all
qed

text \<open>
  C7. Multiplying every bin by one positive constant changes neither \<open>getSpectralCentroid\<close> nor
  \<open>getSpectralSpread\<close>, the bins being real numbers.
\<close>

theorem spectral_scale_invariance:
  assumes "0 < c"
  shows "getSpectralCentroid sampleRate (map ((*) c) spectrum) = getSpectralCentroid sampleRate spectrum
       \<and> getSpectralSpread sampleRate (map ((*) c) spectrum) = getSpectralSpread sampleRate spectrum"
  using centroid_scale [OF assms] spread_scale [OF assms] by simp

theorem spectral_scale_invariance_witness:
  "getSpectralCentroid 8 (map ((*) 2) [1, 3]) = getSpectralCentroid 8 [1, 3]
   \<and> getSpectralSpread 8 (map ((*) 2) [1, 3]) = getSpectralSpread 8 [1, 3]
   \<and> getSpectralCentroid 8 [1, 3] = 3 / 2"
proof -
  have pos: "(0::real) < 2" by simp
  have v: "getSpectralCentroid 8 [1, 3] = 3 / 2"
    by (simp add: centroid_sums)
  show ?thesis
    using spectral_scale_invariance [OF pos, of 8 "[1, 3]"] v by simp
qed

section \<open>Tonality of an all-zero spectrum\<close>

lemma tonality_zero: "getTonality (replicate n 0) = 0"
proof -
  have "fold (\<lambda>i (peakEnergy, totalEnergy).
                let val = replicate n 0 ! i
                in (if val > replicate n 0 ! (i - 1) \<and> val > replicate n 0 ! (i + 1) \<and> val > 10
                    then peakEnergy + val else peakEnergy,
                    totalEnergy + val))
          [1..<n - 1] (0, 0) = (0::real, 0::real)"
  proof (rule fold_fixed)
    fix i assume "i \<in> set [1..<n - 1]"
    then have "i < n" by auto
    then show "(case (0::real, 0::real) of (peakEnergy, totalEnergy) \<Rightarrow>
                let val = replicate n 0 ! i
                in (if val > replicate n 0 ! (i - 1) \<and> val > replicate n 0 ! (i + 1) \<and> val > 10
                    then peakEnergy + val else peakEnergy,
                    totalEnergy + val)) = (0, 0)"
      by (simp add: Let_def)
  qed
  then show ?thesis by (simp add: getTonality_def)
qed

section \<open>Pitch\<close>

lemma correlation_constant:
  "correlation_at (replicate n d) p = real (n - p) * (d * d)"
proof -
  have "fold (\<lambda>i correlation. correlation + replicate n d ! i * replicate n d ! (i + p))
          [0..<n - p] 0 = 0 + (\<Sum>i<n - p. d * d)"
    by (rule fold_upt_sum_gen) simp
  then show ?thesis by (simp add: correlation_at_def)
qed

lemma pitch_search_keep:
  "(\<And>p. period \<le> p \<Longrightarrow> correlation_at signal p \<le> snd best) \<Longrightarrow>
   pitch_search signal bound period best = best"
proof (induction signal bound period best rule: pitch_search.induct)
  case (1 signal bound period bestPeriod bestCorrelation)
  show ?case
  proof (cases "real period < bound")
    case True
    have le: "correlation_at signal period \<le> bestCorrelation"
      using "1.prems" [of period] by simp
    then have upd: "(if bestCorrelation < correlation_at signal period
             then (period, correlation_at signal period) else (bestPeriod, bestCorrelation))
          = (bestPeriod, bestCorrelation)"
      by simp
    have "pitch_search signal bound (period + 1) (bestPeriod, bestCorrelation)
          = (bestPeriod, bestCorrelation)"
      using "1.IH" [OF True refl] "1.prems" unfolding upd by simp
    then show ?thesis
      using True le by (subst pitch_search.simps) (simp add: Let_def)
  next
    case False
    then show ?thesis by (subst pitch_search.simps) simp
  qed
qed

lemma pitch_search_stop:
  assumes "\<not> real period < bound"
  shows "pitch_search signal bound period best = best"
proof (cases best)
  case (Pair bestPeriod bestCorrelation)
  show ?thesis unfolding Pair using assms by (subst pitch_search.simps) simp
qed

lemma getPitch_eq:
  "timeDomain \<noteq> [] \<Longrightarrow> getPitch sampleRate timeDomain =
     (let r = pitch_search (map (\<lambda>x. (x - 128) / 128) timeDomain)
                (min (real (nat \<lfloor>sampleRate / 50\<rfloor>)) (real (length timeDomain) / 2))
                (nat \<lfloor>sampleRate / 1000\<rfloor>) (0, 0)
      in if fst r > 0 then sampleRate / real (fst r) else 0)"
  by (simp add: getPitch_def Let_def split_def)

lemma pitch_search_range:
  "fst (pitch_search signal bound period best) = fst best
   \<or> (period \<le> fst (pitch_search signal bound period best)
      \<and> real (fst (pitch_search signal bound period best)) < bound)"
proof (induction signal bound period best rule: pitch_search.induct)
  case (1 signal bound period bestPeriod bestCorrelation)
  show ?case
  proof (cases "real period < bound")
    case True
    let ?b = "if bestCorrelation < correlation_at signal period
             then (period, correlation_at signal period) else (bestPeriod, bestCorrelation)"
    have eq: "pitch_search signal bound period (bestPeriod, bestCorrelation)
              = pitch_search signal bound (period + 1) ?b"
      using True by (subst pitch_search.simps) (simp add: Let_def)
    from "1.IH" [OF True refl]
    have "fst (pitch_search signal bound (period + 1) ?b) = fst ?b
          \<or> (period + 1 \<le> fst (pitch_search signal bound (period + 1) ?b)
             \<and> real (fst (pitch_search signal bound (period + 1) ?b)) < bound)" .
    then show ?thesis unfolding eq using True by (auto split: if_splits)
  next
    case False
    then show ?thesis by (subst pitch_search.simps) simp
  qed
qed

lemma getPitch_short_buffer:
  assumes "real (length timeDomain) < 2 * real (nat \<lfloor>sampleRate / 1000\<rfloor>)"
  shows "getPitch sampleRate timeDomain = 0"
proof -
  have "\<not> real (nat \<lfloor>sampleRate / 1000\<rfloor>)
          < min (real (nat \<lfloor>sampleRate / 50\<rfloor>)) (real (length timeDomain) / 2)"
    using assms by simp
  then have "pitch_search sig (min (real (nat \<lfloor>sampleRate / 50\<rfloor>)) (real (length timeDomain) / 2))
          (nat \<lfloor>sampleRate / 1000\<rfloor>) (0, 0) = (0, 0)" for sig
    by (rule pitch_search_stop)
  then show ?thesis by (simp add: getPitch_def Let_def)
qed

lemma getPitch_period:
  assumes "getPitch sampleRate timeDomain \<noteq> 0"
  shows "\<exists>p. getPitch sampleRate timeDomain = sampleRate / real p \<and> 0 < p
           \<and> nat \<lfloor>sampleRate / 1000\<rfloor> \<le> p \<and> p < nat \<lfloor>sampleRate / 50\<rfloor>
           \<and> 2 * p < length timeDomain"
proof -
  let ?sig = "map (\<lambda>x. (x - 128) / 128) timeDomain"
  let ?bound = "min (real (nat \<lfloor>sampleRate / 50\<rfloor>)) (real (length timeDomain) / 2)"
  let ?r = "pitch_search ?sig ?bound (nat \<lfloor>sampleRate / 1000\<rfloor>) (0, 0)"
  from assms have ne: "timeDomain \<noteq> []" by (auto simp: getPitch_def)
  have g: "getPitch sampleRate timeDomain = (if fst ?r > 0 then sampleRate / real (fst ?r) else 0)"
    using ne by (simp add: getPitch_def Let_def split_def)
  with assms have pos: "0 < fst ?r" by (auto split: if_splits)
  from pitch_search_range [of ?sig ?bound "nat \<lfloor>sampleRate / 1000\<rfloor>" "(0, 0)"] pos
  have "nat \<lfloor>sampleRate / 1000\<rfloor> \<le> fst ?r \<and> real (fst ?r) < ?bound" by auto
  then show ?thesis using g pos by (intro exI [of _ "fst ?r"]) auto
qed

lemma getPitch_above_50:
  assumes "getPitch sampleRate timeDomain \<noteq> 0"
  shows "50 < getPitch sampleRate timeDomain"
proof -
  from getPitch_period [OF assms] obtain p where
    p: "getPitch sampleRate timeDomain = sampleRate / real p" "0 < p" "p < nat \<lfloor>sampleRate / 50\<rfloor>"
    by blast
  then have "int p < \<lfloor>sampleRate / 50\<rfloor>" by linarith
  then have "real p + 1 \<le> real_of_int \<lfloor>sampleRate / 50\<rfloor>" by linarith
  moreover have "real_of_int \<lfloor>sampleRate / 50\<rfloor> \<le> sampleRate / 50" by (rule of_int_floor_le)
  ultimately have "real p * 50 < sampleRate" by linarith
  then show ?thesis using p by (simp add: pos_less_divide_eq mult.commute)
qed

lemma getPitch_constant:
  assumes "1000 \<le> sampleRate" "c \<noteq> 128" "2 * nat \<lfloor>sampleRate / 1000\<rfloor> < n"
  shows "getPitch sampleRate (replicate n c) = sampleRate / real (nat \<lfloor>sampleRate / 1000\<rfloor>)"
proof -
  define m where "m = nat \<lfloor>sampleRate / 1000\<rfloor>"
  define M where "M = nat \<lfloor>sampleRate / 50\<rfloor>"
  define d where "d = (c - 128) / 128"
  define bound where "bound = min (real M) (real n / 2)"
  have "d \<noteq> 0" using assms(2) by (simp add: d_def)
  then have d: "0 < d * d" using not_real_square_gt_zero [of d] by blast
  have "1 \<le> sampleRate / 1000" using assms(1) by simp
  then have f1: "1 \<le> \<lfloor>sampleRate / 1000\<rfloor>" by linarith
  then have m1: "0 < m" unfolding m_def by linarith
  have "real_of_int (20 * \<lfloor>sampleRate / 1000\<rfloor>) \<le> 20 * (sampleRate / 1000)"
    using of_int_floor_le [of "sampleRate / 1000"] by simp
  then have "20 * \<lfloor>sampleRate / 1000\<rfloor> \<le> \<lfloor>sampleRate / 50\<rfloor>"
    by (intro le_floor_iff [THEN iffD2]) simp
  then have mM: "m < M" unfolding m_def M_def using f1 by linarith
  have mn: "2 * m < n" using assms(3) by (simp add: m_def)
  have mb: "real m < bound" unfolding bound_def using mM mn by (simp add: min_def)
  have ne: "replicate n c \<noteq> []" using assms(3) by auto
  have sig: "map (\<lambda>x. (x - 128) / 128) (replicate n c) = replicate n d"
    by (simp add: d_def)
  have c0: "0 < correlation_at (replicate n d) m"
    unfolding correlation_constant using d mn by simp
  have keep: "pitch_search (replicate n d) bound (m + 1) (m, correlation_at (replicate n d) m)
              = (m, correlation_at (replicate n d) m)"
  proof (rule pitch_search_keep)
    fix p assume "m + 1 \<le> p"
    then have "real (n - p) \<le> real (n - m)" by simp
    then show "correlation_at (replicate n d) p \<le> snd (m, correlation_at (replicate n d) m)"
      unfolding correlation_constant snd_conv using d by (intro mult_right_mono) simp_all
  qed
  have r: "pitch_search (replicate n d) bound m (0, 0) = (m, correlation_at (replicate n d) m)"
    using mb c0 keep by (subst pitch_search.simps) (simp add: Let_def)
  show ?thesis
    unfolding getPitch_eq [OF ne] sig length_replicate
    unfolding m_def [symmetric] M_def [symmetric]
    unfolding bound_def [symmetric] r Let_def
    using m1 by simp
qed

lemma getPitch_silence: "getPitch sampleRate (replicate n 128) = 0"
proof (cases "n = 0")
  case True then show ?thesis by (simp add: getPitch_def)
next
  case False
  have "pitch_search (replicate n 0) b p (0, 0) = (0, 0)" for b p
    by (rule pitch_search_keep) (simp add: correlation_constant)
  then show ?thesis using False by (simp add: getPitch_def Let_def)
qed

text \<open>
  C10. A constant waveform off the centre 128, longer than twice the smallest searched period,
  makes every candidate autocorrelation positive and largest at the smallest period:
  \<open>getPitch\<close> returns \<open>sampleRate / floor(sampleRate / 1000)\<close>, where the centred constant
  waveform gives 0. The sample rate is at least 1000, so that the smallest period is not 0 and
  the claimed quotient is a number.
\<close>

theorem getPitch_constant_offset:
  assumes "1000 \<le> sampleRate" "c \<noteq> 128" "2 * nat \<lfloor>sampleRate / 1000\<rfloor> < n"
  shows "getPitch sampleRate (replicate n c) = sampleRate / real (nat \<lfloor>sampleRate / 1000\<rfloor>)
       \<and> getPitch sampleRate (replicate n 128) = 0"
  using getPitch_constant [OF assms] getPitch_silence by simp

theorem getPitch_constant_offset_witness:
  "getPitch 48000 (map num (replicate 1024 255)) = 1000
   \<and> getPitch 48000 (map num (replicate 1024 128)) = 0"
proof -
  have "(1000::real) \<le> 48000" "(255::real) \<noteq> 128" "2 * nat \<lfloor>48000 / 1000 :: real\<rfloor> < 1024"
    by simp_all
  from getPitch_constant_offset [OF this] show ?thesis by simp
qed

text \<open>
  C5. Claimed: any result that is not 0 lies between 50 Hz and 1000 Hz. The search starts at
  \<open>floor(sampleRate / 1000)\<close>, which is below \<open>sampleRate / 1000\<close> when the rate is no multiple
  of 1000: at 44100 Hz a buffer of 2048 samples, all 129, gives \<open>44100 / 44\<close>, above 1000 Hz.
  (The lemmas \<open>getPitch_period\<close>, \<open>getPitch_above_50\<close> and \<open>getPitch_short_buffer\<close> above are the
  parts of the claim that the code keeps.)
\<close>

theorem getPitch_exceeds_1000Hz:
  "getPitch 44100 (map num (replicate 2048 129)) = 44100 / 44
   \<and> (1000::real) < 44100 / 44"
proof -
  have n: "num 129 = 129" by (simp add: num_def)
  have "getPitch 44100 (replicate 2048 129) = 44100 / real (nat \<lfloor>44100 / 1000 :: real\<rfloor>)"
    by (rule getPitch_constant) simp_all
  then show ?thesis by (simp add: n)
qed

section \<open>Amplitude modulation\<close>

lemma div_step: "0 < w \<Longrightarrow> a = b + w \<Longrightarrow> (a::nat) div w = b div w + 1"
  by simp

text \<open>The window loop stops before the last full window: it runs while \<open>i < length - windowSize\<close>.\<close>

lemma envelopes_count:
  "0 < windowSize \<Longrightarrow>
   length (envelopes_from timeDomain windowSize i envelopes)
     = length envelopes + (length timeDomain - i - 1) div windowSize"
proof (induction timeDomain windowSize i envelopes rule: envelopes_from.induct)
  case (1 timeDomain windowSize i envelopes)
  have w: "0 < windowSize" by (rule "1.prems")
  show ?case
  proof (cases "int i < int (length timeDomain) - int windowSize")
    case True
    then have lt: "i + windowSize < length timeDomain" by linarith
    have step: "envelopes_from timeDomain windowSize i envelopes
          = envelopes_from timeDomain windowSize (i + windowSize)
              (envelopes @ [window_max timeDomain windowSize i])"
      using True w by (subst envelopes_from.simps) simp
    have ih: "length (envelopes_from timeDomain windowSize (i + windowSize)
                    (envelopes @ [window_max timeDomain windowSize i]))
          = length (envelopes @ [window_max timeDomain windowSize i])
            + (length timeDomain - (i + windowSize) - 1) div windowSize"
      using w True by (intro "1.IH" conjI)
    have "length timeDomain - i - 1 = (length timeDomain - (i + windowSize) - 1) + windowSize"
      using lt by linarith
    with w have d: "(length timeDomain - i - 1) div windowSize
               = (length timeDomain - (i + windowSize) - 1) div windowSize + 1"
      by (rule div_step)
    show ?thesis unfolding step ih d by simp
  next
    case False
    then have "length timeDomain - i - 1 < windowSize" using w by linarith
    then have z: "(length timeDomain - i - 1) div windowSize = 0" by (rule div_less)
    have stop: "envelopes_from timeDomain windowSize i envelopes = envelopes"
      using False by (subst envelopes_from.simps) simp
    show ?thesis unfolding stop z by simp
  qed
qed

lemma envelopes_count_multiple:
  assumes "length timeDomain = k * 64"
  shows "length (envelopes_from timeDomain 64 0 []) = k - 1"
proof -
  have "(k * 64 - 1) div 64 = k - 1" by (cases k) simp_all
  then show ?thesis using envelopes_count [of 64 timeDomain 0 "[]"] assms by simp
qed

text \<open>
  C9. Claimed: a waveform of length \<open>k * 64\<close> yields \<open>k\<close> envelope samples, and the result is 0
  only with fewer than 2 windows. The loop yields \<open>k - 1\<close> (lemma \<open>envelopes_count_multiple\<close>).
  A buffer of two full windows, 64 samples at the centre 128 and then 64 samples at 255, has the
  envelope \<open>[0, 127]\<close> by the claim, with standard deviation 63.5 and the result \<open>63.5 / 64\<close>;
  the code takes one envelope sample and returns 0.
\<close>

theorem getAmplitudeModulation_drops_last_window:
  "length (envelopes_from (map num (replicate 64 128 @ replicate 64 255)) 64 0 []) = 1
   \<and> getAmplitudeModulation (map num (replicate 64 128 @ replicate 64 255)) = 0"
proof -
  have l: "length (map num (replicate 64 128 @ replicate 64 255)) = 2 * 64" by simp
  have e: "length (envelopes_from (map num (replicate 64 128 @ replicate 64 255)) 64 0 []) = 1"
    using envelopes_count_multiple [OF l] by simp
  have ne: "map num (replicate 64 128 @ replicate 64 255) \<noteq> []" by simp
  show ?thesis using e ne unfolding getAmplitudeModulation_def Let_def by simp
qed

section \<open>Fields that are finite and in range\<close>

text \<open>
  What the code keeps of the invariant of the feature record, on byte buffers of any length:
  \<open>rms\<close>, \<open>tonality\<close> and \<open>amplitudeModulation\<close> lie between 0 and 1, and \<open>spectralSpread\<close> is a
  finite number. (\<open>frequencyModulation\<close> is 0 by \<open>getAllFeatures_frequencyModulation_zero\<close>, and
  \<open>spectralEntropy\<close> lies between 0 and 1 from 2 bins on.)
\<close>

lemma rms_range: "0 \<le> getRMS (map num ws) \<and> getRMS (map num ws) \<le> 1"
proof (cases "ws = []")
  case True
  then show ?thesis by (simp add: getRMS_def)
next
  case False
  define n where "n = length ws"
  define f where "f i = ((map num ws ! i - 128) / 128) * ((map num ws ! i - 128) / 128)" for i
  have n0: "0 < n" using False by (simp add: n_def)
  have sq: "0 \<le> f i \<and> f i \<le> 1" if "i < n" for i
  proof -
    have b: "0 \<le> num (ws ! i)" "num (ws ! i) \<le> 255" by (rule num_nonneg, rule num_le_255)
    then have "\<bar>(num (ws ! i) - 128) / 128\<bar> \<le> 1" by (simp add: abs_le_iff)
    then have "((num (ws ! i) - 128) / 128)\<^sup>2 \<le> 1" by (simp only: abs_square_le_1)
    then show ?thesis using that by (simp add: f_def n_def power2_eq_square)
  qed
  have lo: "0 \<le> (\<Sum>i<n. f i)" by (rule sum_nonneg) (use sq in simp)
  have "(\<Sum>i<n. f i) \<le> (\<Sum>i<n. 1)" by (rule sum_mono) (use sq in simp)
  then have hi: "(\<Sum>i<n. f i) \<le> real n" by simp
  have "fold (\<lambda>i acc. let normalized = (map num ws ! i - 128) / 128
                       in acc + normalized * normalized) [0..<n] 0 = 0 + (\<Sum>i<n. f i)"
    by (rule fold_upt_sum_gen) (simp add: f_def Let_def)
  then have r: "getRMS (map num ws) = sqrt ((\<Sum>i<n. f i) / real n)"
    using False by (simp add: getRMS_def n_def Let_def)
  have "0 \<le> (\<Sum>i<n. f i) / real n" using lo by simp
  moreover have "(\<Sum>i<n. f i) / real n \<le> 1" using hi n0 by simp
  ultimately show ?thesis unfolding r by simp
qed

lemma fold_fst_nonneg:
  fixes f :: "'i \<Rightarrow> real \<times> 'b \<Rightarrow> real \<times> 'b"
  assumes step: "\<And>i a b. 0 \<le> a \<Longrightarrow> 0 \<le> fst (f i (a, b))"
  shows "0 \<le> a \<Longrightarrow> 0 \<le> fst (fold f xs (a, b))"
proof (induction xs arbitrary: a b)
  case Nil
  then show ?case by simp
next
  case (Cons x xs)
  obtain a' b' where e: "f x (a, b) = (a', b')" by (cases "f x (a, b)") auto
  have "0 \<le> a'" using step [OF Cons.prems, of x b] e by simp
  then show ?case using Cons.IH [of a' b'] e by simp
qed

lemma tonality_fold_nonneg:
  "0 \<le> fst (fold (\<lambda>i (peakEnergy, totalEnergy).
                     let val = spectrum ! i
                     in (if val > spectrum ! (i - 1) \<and> val > spectrum ! (i + 1) \<and> val > 10
                         then peakEnergy + val else peakEnergy,
                         totalEnergy + val)) xs (0::real, 0::real))"
  by (rule fold_fst_nonneg) (simp_all add: Let_def)

lemma tonality_range: "0 \<le> getTonality spectrum \<and> getTonality spectrum \<le> 1"
proof -
  obtain pe te where f: "fold (\<lambda>i (peakEnergy, totalEnergy).
                     let val = spectrum ! i
                     in (if val > spectrum ! (i - 1) \<and> val > spectrum ! (i + 1) \<and> val > 10
                         then peakEnergy + val else peakEnergy,
                         totalEnergy + val)) [1..<length spectrum - 1] (0, 0) = (pe, te)"
    by (cases "fold (\<lambda>i (peakEnergy, totalEnergy).
                     let val = spectrum ! i
                     in (if val > spectrum ! (i - 1) \<and> val > spectrum ! (i + 1) \<and> val > 10
                         then peakEnergy + val else peakEnergy,
                         totalEnergy + val)) [1..<length spectrum - 1] (0::real, 0::real)") auto
  have "0 \<le> pe"
    using tonality_fold_nonneg [of spectrum "[1..<length spectrum - 1]"] f by simp
  then have "0 < te \<Longrightarrow> 0 \<le> pe / te * 3" by simp
  then show ?thesis unfolding getTonality_def f by auto
qed

lemma variance_fold_nonneg:
  "0 \<le> a \<Longrightarrow> 0 \<le> foldl (\<lambda>acc val. acc + (val - mean)\<^sup>2) (a::real) envelopes"
  by (induction envelopes arbitrary: a) simp_all

lemma amplitudeModulation_range:
  "0 \<le> getAmplitudeModulation timeDomain \<and> getAmplitudeModulation timeDomain \<le> 1"
proof -
  have "0 \<le> sqrt (foldl (\<lambda>acc val. acc + (val - mean)\<^sup>2) 0 envelopes / real (length envelopes)) / 64"
    for mean and envelopes :: "real list"
    using variance_fold_nonneg [of 0 mean envelopes] by simp
  then show ?thesis by (simp add: getAmplitudeModulation_def Let_def)
qed

lemma spread_finite: "getSpectralSpread sampleRate (map num ws) \<noteq> None"
proof (cases "ws = []")
  case True
  then show ?thesis by (simp add: getSpectralSpread_def)
next
  case False
  then have ne: "map num ws \<noteq> []" by simp
  let ?f = "sampleRate / (real (length (map num ws)) * 2)"
  let ?c = "getSpectralCentroid sampleRate (map num ws)"
  let ?V = "\<Sum>i<length (map num ws). map num ws ! i * (real i * ?f - ?c) * (real i * ?f - ?c)"
  let ?T = "\<Sum>i<length (map num ws). map num ws ! i"
  have V: "0 \<le> ?V"
    by (rule sum_nonneg) (simp add: mult.assoc num_nonneg)
  have e: "getSpectralSpread sampleRate (map num ws)
             = (if ?T > 0 then jssqrt (?V / ?T) else Some 0)"
    using spread_sums [OF ne, of sampleRate] by (simp only: Let_def)
  show ?thesis
  proof (cases "?T > 0")
    case True
    then have "\<not> ?V / ?T < 0" using V by (simp add: not_less)
    then have j: "jssqrt (?V / ?T) = Some (sqrt (?V / ?T))"
      unfolding jssqrt_def by (rule if_not_P)
    show ?thesis by (simp only: e True if_True j option.distinct not_False_eq_True)
  next
    case F: False
    show ?thesis by (simp only: e F if_False option.distinct not_False_eq_True)
  qed
qed

section \<open>Silence\<close>

text \<open>
  C2. Claimed: on silence (every waveform sample 128, every bin 0) RMS, peak, flux, entropy,
  tonality and pitch are all 0. The entropy is not: the smoothing by \<open>+1\<close> makes the all-zero
  spectrum a uniform distribution, whose normalised entropy is 1.
\<close>

theorem silence_entropy_not_zero:
  "getSpectralEntropy (map num (replicate 1024 0)) = Some 1
   \<and> getSpectralEntropy (map num (replicate 1024 0)) \<noteq> Some 0"
proof -
  have "getSpectralEntropy (replicate 1024 0) = Some 1"
    by (rule entropy_uniform) simp_all
  then show ?thesis by simp
qed

text \<open>
  C2, amended. On silence \<open>getRMS\<close>, \<open>getPeak\<close>, \<open>getSpectralFlux\<close> (whatever spectrum is
  stored), \<open>getTonality\<close> and \<open>getPitch\<close> return 0; \<open>getSpectralEntropy\<close> returns 1 on at least
  2 bins, and 0 on an empty buffer.
\<close>

theorem silence_features:
  "getRMS (map num (replicate m 128)) = 0
   \<and> getPeak (map num (replicate m 128)) = 0
   \<and> fst (getSpectralFlux a (replicate n 0)) = 0
   \<and> getTonality (map num (replicate n 0)) = 0
   \<and> getPitch sampleRate (map num (replicate m 128)) = 0
   \<and> (2 \<le> n \<longrightarrow> getSpectralEntropy (map num (replicate n 0)) = Some 1)
   \<and> (n = 0 \<longrightarrow> getSpectralEntropy (map num (replicate n 0)) = Some 0)"
proof -
  have "2 \<le> n \<Longrightarrow> getSpectralEntropy (replicate n 0) = Some 1"
    by (rule entropy_uniform) simp_all
  then show ?thesis
    by (simp add: rms_silence peak_silence flux_zero_spectrum tonality_zero getPitch_silence
          getSpectralEntropy_def)
qed

theorem silence_features_witness:
  "getRMS (map num (replicate 2048 128)) = 0
   \<and> getPeak (map num (replicate 2048 128)) = 0
   \<and> fst (getSpectralFlux (AudioAnalyzer\<lparr>prevSpectrum := Some (replicate 1024 0)\<rparr>)
            (replicate 1024 0)) = 0
   \<and> getTonality (map num (replicate 1024 0)) = 0
   \<and> getPitch 44100 (map num (replicate 2048 128)) = 0
   \<and> getSpectralEntropy (map num (replicate 1024 0)) = Some 1"
  using silence_features [of 2048 "AudioAnalyzer\<lparr>prevSpectrum := Some (replicate 1024 0)\<rparr>" 1024 44100]
  by simp

end
